theory Spec2Isabelle
  imports Main
begin

section \<open>JavaScript values handled by the renderer\<close>

text \<open>
  The renderer (myreact.js) is dynamically typed. The values it inspects are modelled by
  one datatype. Numbers are the integers (which JavaScript represents exactly up to
  \<open>2^53\<close>). A function value is a reference: \<open>JFun f\<close> is caller code, whose behaviour is
  looked up in a function table; \<open>JSetState i\<close> is the closure \<open>setState\<close> that a
  \<open>useState\<close> call creates, which captures \<open>stateIndex = i\<close>. \<open>JObj\<close> is a plain object
  given by its own enumerable properties in enumeration order, \<open>JElem type props children\<close>
  is the record \<open>{ type, props, children }\<close> that \<open>createElement\<close> returns.
\<close>

datatype jsval =
    JUndefined
  | JNull
  | JBool bool
  | JNum int
  | JStr string
  | JFun nat
  | JSetState nat
  | JArr "jsval list"
  | JObj "(string \<times> jsval) list"
  | JElem jsval jsval "jsval list"

text \<open>\<open>typeof v === 'function'\<close>, \<open>typeof v === 'object'\<close> and truthiness (for \<open>props || {}\<close>).\<close>

fun is_function :: "jsval \<Rightarrow> bool" where
  "is_function (JFun f) = True"
| "is_function (JSetState i) = True"
| "is_function v = False"

fun is_object :: "jsval \<Rightarrow> bool" where
  "is_object JNull = True"
| "is_object (JArr xs) = True"
| "is_object (JObj kvs) = True"
| "is_object (JElem t p cs) = True"
| "is_object v = False"

fun truthy :: "jsval \<Rightarrow> bool" where
  "truthy JUndefined = False"
| "truthy JNull = False"
| "truthy (JBool b) = b"
| "truthy (JNum k) = (k \<noteq> 0)"
| "truthy (JStr s) = (s \<noteq> [])"
| "truthy v = True"

subsection \<open>Strings\<close>

text \<open>\<open>String(n)\<close> for an integer: its decimal numeral.\<close>

fun digits :: "nat \<Rightarrow> string" where
  "digits n =
     (if n < 10 then [char_of (48 + n)]
      else digits (n div 10) @ [char_of (48 + n mod 10)])"

declare digits.simps [simp del]

definition String_of :: "int \<Rightarrow> string" where
  "String_of k = (if k < 0 then CHR ''-'' # digits (nat (- k)) else digits (nat k))"

text \<open>\<open>toLowerCase\<close> on ASCII letters, \<open>name.startsWith('on')\<close>, \<open>name.slice(2)\<close>.\<close>

definition lower_char :: "char \<Rightarrow> char" where
  "lower_char c =
     (let n = (of_char c :: nat) in if 65 \<le> n \<and> n \<le> 90 then char_of (n + 32) else c)"

definition toLowerCase :: "string \<Rightarrow> string" where
  "toLowerCase s = map lower_char s"

definition startsWith_on :: "string \<Rightarrow> bool" where
  "startsWith_on name = (take 2 name = ''on'')"

definition slice2 :: "string \<Rightarrow> string" where
  "slice2 name = drop 2 name"

subsection \<open>Objects\<close>

text \<open>
  \<open>Object.entries(v)\<close>: \<open>None\<close> is the TypeError raised for \<open>null\<close> and \<open>undefined\<close>.
  Arrays and strings enumerate their indices; numbers, booleans and functions have no own
  enumerable property.
\<close>

fun indexed :: "nat \<Rightarrow> jsval list \<Rightarrow> (string \<times> jsval) list" where
  "indexed i [] = []"
| "indexed i (x # xs) = (digits i, x) # indexed (Suc i) xs"

fun Object_entries :: "jsval \<Rightarrow> (string \<times> jsval) list option" where
  "Object_entries JUndefined = None"
| "Object_entries JNull = None"
| "Object_entries (JObj kvs) = Some kvs"
| "Object_entries (JArr xs) = Some (indexed 0 xs)"
| "Object_entries (JStr s) = Some (indexed 0 (map (\<lambda>c. JStr [c]) s))"
| "Object_entries (JElem t p cs) = Some [(''type'', t), (''props'', p), (''children'', JArr cs)]"
| "Object_entries v = Some []"

text \<open>Assignment \<open>obj[name] = value\<close> on a property list: an existing key keeps its place.\<close>

fun put :: "string \<Rightarrow> jsval \<Rightarrow> (string \<times> jsval) list \<Rightarrow> (string \<times> jsval) list" where
  "put k v [] = [(k, v)]"
| "put k v ((k', v') # kvs) = (if k' = k then (k, v) # kvs else (k', v') # put k v kvs)"

text \<open>
  \<open>Object.assign({}, props, { children: children })\<close>: a \<open>null\<close> or \<open>undefined\<close> source is
  skipped.
\<close>

definition assign_children :: "jsval \<Rightarrow> jsval list \<Rightarrow> jsval" where
  "assign_children props children =
     JObj (put ''children'' (JArr children)
            (fold (\<lambda>(k, v). put k v) (case Object_entries props of None \<Rightarrow> [] | Some kvs \<Rightarrow> kvs) []))"

section \<open>createElement\<close>

text \<open>
  \<open>addChild\<close> pushes onto \<open>flatChildren\<close>, here the accumulator; \<open>addChildren\<close> is
  \<open>forEach(addChild)\<close>.
\<close>

fun addChild :: "jsval \<Rightarrow> jsval list \<Rightarrow> jsval list"
  and addChildren :: "jsval list \<Rightarrow> jsval list \<Rightarrow> jsval list" where
  "addChild (JArr cs) flatChildren = addChildren cs flatChildren"
| "addChild JNull flatChildren = flatChildren"
| "addChild (JBool b) flatChildren = (if b then flatChildren @ [JBool b] else flatChildren)"
| "addChild JUndefined flatChildren = flatChildren"
| "addChild (JNum k) flatChildren = flatChildren @ [JNum k]"
| "addChild (JStr s) flatChildren = flatChildren @ [JStr s]"
| "addChild (JFun f) flatChildren = flatChildren @ [JFun f]"
| "addChild (JSetState i) flatChildren = flatChildren @ [JSetState i]"
| "addChild (JObj kvs) flatChildren = flatChildren @ [JObj kvs]"
| "addChild (JElem t p cs) flatChildren = flatChildren @ [JElem t p cs]"
| "addChildren [] flatChildren = flatChildren"
| "addChildren (c # cs) flatChildren = addChildren cs (addChild c flatChildren)"

definition createElement :: "jsval \<Rightarrow> jsval \<Rightarrow> jsval list \<Rightarrow> jsval" where
  "createElement type props children =
     JElem type (if truthy props then props else JObj []) (addChildren children [])"



section \<open>The host display tree\<close>

text \<open>
  A host node is a text node or an element. An element is modelled by what the renderer
  has done to it: the listeners added with \<open>addEventListener\<close>, the attributes written with
  \<open>setAttribute\<close>, the properties of \<open>dom.style\<close> that were assigned, the fields assigned
  with \<open>dom[name] = value\<close>, and the child nodes appended, each in order. The host is taken
  to carry out every request made of it: it creates an element for every tag string and
  accepts every listener, attribute, style property and field.
\<close>

datatype host =
    HText string
  | HElem (tagName: string)
      (listeners: "(string \<times> jsval) list")
      (attributes: "(string \<times> jsval) list")
      (style: "(string \<times> jsval) list")
      (fields: "(string \<times> jsval) list")
      (childNodes: "host list")

text \<open>\<open>document.createElement(tag)\<close>: a new element with nothing applied to it.\<close>

definition createDom :: "string \<Rightarrow> host" where
  "createDom tag = HElem tag [] [] [] [] []"

text \<open>
  \<open>addEventListener\<close> keeps one registration of the same listener for the same event;
  the three assignments replace the value under a name that is present.
\<close>

fun addEventListener :: "string \<Rightarrow> jsval \<Rightarrow> host \<Rightarrow> host" where
  "addEventListener ev fn (HElem t ls as ss fs ks) =
     HElem t (if (ev, fn) \<in> set ls then ls else ls @ [(ev, fn)]) as ss fs ks"
| "addEventListener ev fn (HText s) = HText s"

fun setAttribute :: "string \<Rightarrow> jsval \<Rightarrow> host \<Rightarrow> host" where
  "setAttribute name v (HElem t ls as ss fs ks) = HElem t ls (put name v as) ss fs ks"
| "setAttribute name v (HText s) = HText s"

fun setStyle :: "string \<Rightarrow> jsval \<Rightarrow> host \<Rightarrow> host" where
  "setStyle name v (HElem t ls as ss fs ks) = HElem t ls as (put name v ss) fs ks"
| "setStyle name v (HText s) = HText s"

fun setField :: "string \<Rightarrow> jsval \<Rightarrow> host \<Rightarrow> host" where
  "setField name v (HElem t ls as ss fs ks) = HElem t ls as ss (put name v fs) ks"
| "setField name v (HText s) = HText s"

fun setChildNodes :: "host list \<Rightarrow> host \<Rightarrow> host" where
  "setChildNodes ks' (HElem t ls as ss fs ks) = HElem t ls as ss fs ks'"
| "setChildNodes ks' (HText s) = HText s"

text \<open>
  Which fields an element of a given tag exposes (\<open>name in dom\<close>) is decided by the host,
  not by this repository: it is a parameter, from tag and name to the answer.
\<close>

type_synonym hostapi = "string \<Rightarrow> string \<Rightarrow> bool"

section \<open>Outcomes\<close>

text \<open>
  A call either completes or raises. \<open>TypeError\<close> is the fault JavaScript raises on a
  property read of \<open>null\<close> or \<open>undefined\<close>; \<open>Thrown\<close> is a fault raised by caller code;
  \<open>Diverged\<close> marks a pass that invoked more components in a chain than the bound given.
  \<open>Unmodelled\<close> marks a call whose outcome is not described here: a \<open>setState\<close> closure
  invoked by the renderer itself (as a component or as an updater), which re-enters
  \<open>render\<close>; an element whose type is neither a function nor a string; a plain object
  used as a node.
\<close>

datatype fault = TypeError | Thrown | Diverged | Unmodelled

datatype status = Done | Raised fault

section \<open>The module state\<close>

text \<open>
  The four variables of the module, and the children of every container of the page
  (containers are named by numbers; \<open>None\<close> is \<open>null\<close>).
\<close>

record world =
  hookStates :: "jsval list"
  hookIndex :: nat
  currentRootElement :: jsval
  currentContainer :: "nat option"
  page :: "nat \<Rightarrow> host list"

text \<open>
  The state in which the module is loaded (\<open>hookStates = []\<close>, \<open>hookIndex = 0\<close>, both
  references \<open>null\<close>), on a page whose containers are empty.
\<close>

definition initial_world :: world where
  "initial_world =
     \<lparr>hookStates = [], hookIndex = 0, currentRootElement = JNull, currentContainer = None,
      page = (\<lambda>c. [])\<rparr>"

text \<open>
  Reading and writing an array by index: a read past the end yields \<open>undefined\<close>, a write
  past the end extends the array, the slots in between reading as \<open>undefined\<close>.
\<close>

definition js_get :: "jsval list \<Rightarrow> nat \<Rightarrow> jsval" where
  "js_get xs i = (if i < length xs then xs ! i else JUndefined)"

definition js_set :: "jsval list \<Rightarrow> nat \<Rightarrow> jsval \<Rightarrow> jsval list" where
  "js_set xs i v =
     (if i < length xs then xs[i := v]
      else xs @ replicate (i - length xs) JUndefined @ [v])"

section \<open>useState\<close>

text \<open>
  The pair returned is the value and the closure \<open>setState\<close>, which is \<open>JSetState\<close> of the
  captured \<open>stateIndex\<close>; the body of the closure is \<open>setState\<close> below.
\<close>

definition useState :: "jsval \<Rightarrow> world \<Rightarrow> (jsval \<times> jsval) \<times> world" where
  "useState initialValue w =
     (let stateIndex = hookIndex w;
          w1 = (if js_get (hookStates w) stateIndex = JUndefined
                then w\<lparr>hookStates := js_set (hookStates w) stateIndex initialValue\<rparr>
                else w);
          setState = JSetState stateIndex;
          val = js_get (hookStates w1) stateIndex
      in ((val, setState), w1\<lparr>hookIndex := hookIndex w1 + 1\<rparr>))"

section \<open>Caller code\<close>

text \<open>
  Components and updaters are functions of the application. What the renderer observes
  of one call is the sequence of \<open>useState\<close> calls it makes, each continued with the pair
  it got back, and then its result or a fault. A function table gives, for every function
  reference and argument, that behaviour. Caller code that invokes a setter or \<open>render\<close>
  while it is being called by the renderer is not described by this type.
\<close>

datatype prog =
    Ret jsval
  | Throw
  | UseState jsval "jsval \<Rightarrow> jsval \<Rightarrow> prog"

type_synonym fntab = "nat \<Rightarrow> jsval \<Rightarrow> prog"

primrec run :: "prog \<Rightarrow> world \<Rightarrow> jsval option \<times> world" where
  "run (Ret v) = (\<lambda>w. (Some v, w))"
| "run Throw = (\<lambda>w. (None, w))"
| "run (UseState initialValue k) =
     (\<lambda>w. case useState initialValue w of ((v, s), w') \<Rightarrow> run (k v s) w')"

section \<open>appendElement\<close>

text \<open>One step of the \<open>forEach\<close> over \<open>Object.entries(node.props)\<close>; \<open>None\<close> is a TypeError.\<close>

definition applyProp :: "hostapi \<Rightarrow> string \<times> jsval \<Rightarrow> host \<Rightarrow> host option" where
  "applyProp H nv el =
     (case nv of (name, v) \<Rightarrow>
        if startsWith_on name \<and> is_function v then
          Some (addEventListener (toLowerCase (slice2 name)) v el)
        else if name = ''className'' then
          Some (setAttribute ''class'' v el)
        else if name = ''style'' \<and> is_object v then
          (case Object_entries v of
             None \<Rightarrow> None
           | Some es \<Rightarrow> Some (fold (\<lambda>(propName, propValue). setStyle propName propValue) es el))
        else if name \<noteq> ''children'' then
          (if v \<noteq> JNull \<and> v \<noteq> JUndefined then
             (if H (tagName el) name then Some (setField name v el)
              else Some (setAttribute name v el))
           else Some el)
        else Some el)"

fun applyProps :: "hostapi \<Rightarrow> (string \<times> jsval) list \<Rightarrow> host \<Rightarrow> host option" where
  "applyProps H [] el = Some el"
| "applyProps H (nv # rest) el =
     (case applyProp H nv el of None \<Rightarrow> None | Some el' \<Rightarrow> applyProps H rest el')"

text \<open>
  \<open>appendElement node container\<close>, on the child list of the container and the module
  state. \<open>appendAll\<close> is \<open>forEach((child) => appendElement(child, container))\<close>. The bound
  \<open>n\<close> limits how many components may be invoked in a chain, each on the result of the one
  before; nothing else consumes it. A fault leaves the container as it was when the fault
  was raised.
\<close>

function appendElement ::
    "fntab \<Rightarrow> hostapi \<Rightarrow> nat \<Rightarrow> jsval \<Rightarrow> host list \<Rightarrow> world \<Rightarrow> status \<times> host list \<times> world"
  and appendAll ::
    "fntab \<Rightarrow> hostapi \<Rightarrow> nat \<Rightarrow> jsval list \<Rightarrow> host list \<Rightarrow> world \<Rightarrow> status \<times> host list \<times> world"
where
  "appendElement \<Phi> H n (JStr s) container w = (Done, container @ [HText s], w)"
| "appendElement \<Phi> H n (JNum k) container w = (Done, container @ [HText (String_of k)], w)"
| "appendElement \<Phi> H n (JArr cs) container w = appendAll \<Phi> H n cs container w"
| "appendElement \<Phi> H n (JElem type props children) container w =
     (case type of
        JFun component \<Rightarrow>
          (case n of
             0 \<Rightarrow> (Raised Diverged, container, w)
           | Suc m \<Rightarrow>
               (case run (\<Phi> component (assign_children props children)) w of
                  (None, w') \<Rightarrow> (Raised Thrown, container, w')
                | (Some rendered, w') \<Rightarrow> appendElement \<Phi> H m rendered container w'))
      | JSetState i \<Rightarrow> (Raised Unmodelled, container, w)
      | JStr tag \<Rightarrow>
          (case Object_entries props of
             None \<Rightarrow> (Raised TypeError, container, w)
           | Some ps \<Rightarrow>
               (case applyProps H ps (createDom tag) of
                  None \<Rightarrow> (Raised TypeError, container, w)
                | Some el \<Rightarrow>
                    (case appendAll \<Phi> H n children (childNodes el) w of
                       (Done, ks, w') \<Rightarrow> (Done, container @ [setChildNodes ks el], w')
                     | (Raised e, ks, w') \<Rightarrow> (Raised e, container, w'))))
      | _ \<Rightarrow> (Raised Unmodelled, container, w))"
| "appendElement \<Phi> H n JUndefined container w = (Raised TypeError, container, w)"
| "appendElement \<Phi> H n JNull container w = (Raised TypeError, container, w)"
| "appendElement \<Phi> H n (JBool b) container w = (Raised TypeError, container, w)"
| "appendElement \<Phi> H n (JFun f) container w = (Raised TypeError, container, w)"
| "appendElement \<Phi> H n (JSetState i) container w = (Raised TypeError, container, w)"
| "appendElement \<Phi> H n (JObj kvs) container w = (Raised Unmodelled, container, w)"
| "appendAll \<Phi> H n [] container w = (Done, container, w)"
| "appendAll \<Phi> H n (child # rest) container w =
     (case appendElement \<Phi> H n child container w of
        (Done, container', w') \<Rightarrow> appendAll \<Phi> H n rest container' w'
      | (Raised e, container', w') \<Rightarrow> (Raised e, container', w'))"
  by pat_completeness auto
termination
  by (relation "measures
        [\<lambda>x. case x of Inl (\<Phi>, H, n, node, c, w) \<Rightarrow> n | Inr (\<Phi>, H, n, nodes, c, w) \<Rightarrow> n,
         \<lambda>x. case x of Inl (\<Phi>, H, n, node, c, w) \<Rightarrow> size node
                      | Inr (\<Phi>, H, n, nodes, c, w) \<Rightarrow> size_list size nodes]")
     auto

section \<open>render\<close>

text \<open>The loop \<open>while (container.firstChild) container.removeChild(container.firstChild)\<close>.\<close>

fun removeChildren :: "host list \<Rightarrow> host list" where
  "removeChildren [] = []"
| "removeChildren (firstChild # rest) = removeChildren rest"

text \<open>
  A container that is \<open>null\<close> faults at \<open>container.firstChild\<close>, after the three
  assignments. The child list of the container is written back to the page with whatever
  was appended, also when mounting raised.
\<close>

definition render :: "fntab \<Rightarrow> hostapi \<Rightarrow> nat \<Rightarrow> jsval \<Rightarrow> nat option \<Rightarrow> world \<Rightarrow> status \<times> world" where
  "render \<Phi> H n element container w =
     (let w1 = w\<lparr>hookIndex := 0, currentRootElement := element, currentContainer := container\<rparr>
      in case container of
           None \<Rightarrow> (Raised TypeError, w1)
         | Some c \<Rightarrow>
             (let w2 = w1\<lparr>page := (page w1)(c := removeChildren (page w1 c))\<rparr>
              in case appendElement \<Phi> H n element (page w2 c) w2 of
                   (st, kids, w3) \<Rightarrow> (st, w3\<lparr>page := (page w3)(c := kids)\<rparr>)))"

section \<open>setState\<close>

text \<open>
  The body of the closure that \<open>useState\<close> returns, for its captured \<open>stateIndex\<close>. The
  assignment to the slot comes first: \<open>Inl\<close> when the updater raised (or is itself a
  \<open>setState\<close> closure), \<open>Inr\<close> with the slot written otherwise.
\<close>

definition assignSlot :: "fntab \<Rightarrow> nat \<Rightarrow> jsval \<Rightarrow> world \<Rightarrow> fault \<times> world + world" where
  "assignSlot \<Phi> stateIndex newValue w =
     (if is_function newValue then
        (case newValue of
           JFun updater \<Rightarrow>
             (case run (\<Phi> updater (js_get (hookStates w) stateIndex)) w of
                (None, w') \<Rightarrow> Inl (Thrown, w')
              | (Some v, w') \<Rightarrow> Inr (w'\<lparr>hookStates := js_set (hookStates w') stateIndex v\<rparr>))
         | _ \<Rightarrow> Inl (Unmodelled, w))
      else Inr (w\<lparr>hookStates := js_set (hookStates w) stateIndex newValue\<rparr>))"

definition setState :: "fntab \<Rightarrow> hostapi \<Rightarrow> nat \<Rightarrow> nat \<Rightarrow> jsval \<Rightarrow> world \<Rightarrow> status \<times> world" where
  "setState \<Phi> H n stateIndex newValue w =
     (case assignSlot \<Phi> stateIndex newValue w of
        Inl (e, w') \<Rightarrow> (Raised e, w')
      | Inr w1 \<Rightarrow>
          render \<Phi> H n (currentRootElement w1) (currentContainer w1) (w1\<lparr>hookIndex := 0\<rparr>))"


section \<open>An example application\<close>

text \<open>
  The counter of the specification's end-to-end example, used to exhibit the renderer at
  concrete inputs. Function 0 is the component \<open>Counter\<close>: it keeps a count that starts at
  \<open>0\<close> and renders a button showing it. Function 1 is the button's click handler, which the
  renderer registers and never calls. Function 2 is the updater \<open>prev => prev + 1\<close>, on a
  number.
\<close>

definition counter_app :: fntab where
  "counter_app f arg =
     (if f = 0 then
        UseState (JNum 0) (\<lambda>count setCount.
          Ret (createElement (JStr ''button'') (JObj [(''onClick'', JFun 1)]) [count]))
      else if f = 2 then
        (case arg of JNum k \<Rightarrow> Ret (JNum (k + 1)) | _ \<Rightarrow> Throw)
      else Ret JUndefined)"

definition no_fields :: hostapi where
  "no_fields tag name = False"

section \<open>Loading the persisted records (app.js)\<close>

text \<open>
  \<open>localStorage\<close> is a map from keys to strings. \<open>JSON.parse\<close>, and the in-place
  \<open>entries.sort\<close> with the date and exercise comparator, are taken as parameters: each
  yields a value (for the sort, the array as it is after sorting) or raises. The console
  is the list of the calls of \<open>console.error\<close>, each with its message and the fault caught.
\<close>

type_synonym storage = "string \<rightharpoonup> string"
type_synonym parser = "string \<Rightarrow> fault + jsval"
type_synonym sorter = "jsval \<Rightarrow> fault + jsval"
type_synonym console = "(string \<times> fault) list"

text \<open>
  The body of a \<open>try\<close> block: \<open>Inl\<close> when it raised, \<open>Inr (Some v)\<close> when it returned \<open>v\<close>,
  \<open>Inr None\<close> when it ran to its end without returning.
\<close>

definition loadEntries_try :: "parser \<Rightarrow> sorter \<Rightarrow> storage \<Rightarrow> fault + jsval option" where
  "loadEntries_try JSON_parse sort_entries localStorage =
     (case localStorage ''workoutEntries'' of
        None \<Rightarrow> Inr None
      | Some data \<Rightarrow>
          if data = [] then Inr None
          else (case JSON_parse data of
                  Inl err \<Rightarrow> Inl err
                | Inr entries \<Rightarrow>
                    (case sort_entries entries of
                       Inl err \<Rightarrow> Inl err
                     | Inr arranged \<Rightarrow> Inr (Some arranged))))"

definition loadEntries ::
    "parser \<Rightarrow> sorter \<Rightarrow> storage \<Rightarrow> console \<Rightarrow> (fault + jsval) \<times> console" where
  "loadEntries JSON_parse sort_entries localStorage console =
     (case loadEntries_try JSON_parse sort_entries localStorage of
        Inr (Some entries) \<Rightarrow> (Inr entries, console)
      | Inr None \<Rightarrow> (Inr (JArr []), console)
      | Inl err \<Rightarrow> (Inr (JArr []), console @ [(''Failed to load entries:'', err)]))"

definition loadPlan_try :: "parser \<Rightarrow> storage \<Rightarrow> fault + jsval option" where
  "loadPlan_try JSON_parse localStorage =
     (case localStorage ''workoutPlan'' of
        None \<Rightarrow> Inr None
      | Some data \<Rightarrow>
          if data = [] then Inr None
          else (case JSON_parse data of
                  Inl err \<Rightarrow> Inl err
                | Inr plan \<Rightarrow> Inr (Some plan)))"

definition loadPlan :: "parser \<Rightarrow> storage \<Rightarrow> console \<Rightarrow> (fault + jsval) \<times> console" where
  "loadPlan JSON_parse localStorage console =
     (case loadPlan_try JSON_parse localStorage of
        Inr (Some plan) \<Rightarrow> (Inr plan, console)
      | Inr None \<Rightarrow> (Inr JNull, console)
      | Inl err \<Rightarrow> (Inr JNull, console @ [(''Failed to load plan:'', err)]))"

section \<open>Specification of flattening\<close>



section \<open>Relations between module states\<close>

text \<open>
  What one mounting pass does to the module state, from the state \<open>w\<close> it starts in to the
  state \<open>w'\<close> it ends in. \<open>others_kept\<close>: the retained root, the retained container and the
  page are as before. \<open>pass\<close>: moreover the hook index and the length of the slot array have
  not decreased, every slot below the starting index and every slot that held a value other
  than \<open>undefined\<close> reads as before, and every index consumed lies within the array.
  \<open>replays u w w'\<close>: the state \<open>u\<close> has the hook index of \<open>w\<close> and already holds, at every
  index that the pass from \<open>w\<close> to \<open>w'\<close> consumed, the value that the pass left there.
  \<open>appended k r\<close> is the outcome \<open>r\<close> of mounting into an empty container, carried over to
  a container that holds \<open>k\<close>.
\<close>

definition others_kept :: "world \<Rightarrow> world \<Rightarrow> bool" where
  "others_kept w w' \<longleftrightarrow>
     currentRootElement w' = currentRootElement w \<and> currentContainer w' = currentContainer w
     \<and> page w' = page w"

definition pass :: "world \<Rightarrow> world \<Rightarrow> bool" where
  "pass w w' \<longleftrightarrow>
     others_kept w w' \<and> hookIndex w \<le> hookIndex w'
     \<and> length (hookStates w) \<le> length (hookStates w')
     \<and> (\<forall>j. j < hookIndex w \<or> js_get (hookStates w) j \<noteq> JUndefined
            \<longrightarrow> js_get (hookStates w') j = js_get (hookStates w) j)
     \<and> (\<forall>j. hookIndex w \<le> j \<and> j < hookIndex w' \<longrightarrow> j < length (hookStates w'))"

definition replays :: "world \<Rightarrow> world \<Rightarrow> world \<Rightarrow> bool" where
  "replays u w w' \<longleftrightarrow>
     hookIndex u = hookIndex w
     \<and> (\<forall>j. hookIndex w \<le> j \<and> j < hookIndex w' \<longrightarrow>
            j < length (hookStates u) \<and> js_get (hookStates u) j = js_get (hookStates w') j)"

definition appended :: "host list \<Rightarrow> status \<times> host list \<times> world \<Rightarrow> status \<times> host list \<times> world" where
  "appended k r = (case r of (st, new, w') \<Rightarrow> (st, k @ new, w'))"

section \<open>Properties of createElement\<close>








section \<open>Properties of appendElement on host nodes\<close>

lemma appendElement_host:
  "appendElement \<Phi> H n (JElem (JStr tag) props children) container w =
     (case Object_entries props of
        None \<Rightarrow> (Raised TypeError, container, w)
      | Some ps \<Rightarrow>
          (case applyProps H ps (createDom tag) of
             None \<Rightarrow> (Raised TypeError, container, w)
           | Some el \<Rightarrow>
               (case appendAll \<Phi> H n children (childNodes el) w of
                  (Done, ks, w') \<Rightarrow> (Done, container @ [setChildNodes ks el], w')
                | (Raised e, ks, w') \<Rightarrow> (Raised e, container, w'))))"
  by simp

lemma appendElement_component:
  "appendElement \<Phi> H (Suc m) (JElem (JFun component) props children) container w =
     (case run (\<Phi> component (assign_children props children)) w of
        (None, w') \<Rightarrow> (Raised Thrown, container, w')
      | (Some rendered, w') \<Rightarrow> appendElement \<Phi> H m rendered container w')"
  "appendElement \<Phi> H 0 (JElem (JFun component) props children) container w =
     (Raised Diverged, container, w)"
  by simp_all

lemmas appendElement_elem = appendElement.simps(4)

declare appendElement.simps(4) [simp del]





section \<open>Properties of the loaders\<close>

lemma loadEntries_caught:
  "loadEntries_try P S L = Inl err \<Longrightarrow>
   loadEntries P S L console = (Inr (JArr []), console @ [(''Failed to load entries:'', err)])"
  by (simp add: loadEntries_def)

lemma loadPlan_caught:
  "loadPlan_try P L = Inl err \<Longrightarrow>
   loadPlan P L console = (Inr JNull, console @ [(''Failed to load plan:'', err)])"
  by (simp add: loadPlan_def)

lemma loadEntries_returns: "fst (loadEntries P S L console) \<noteq> Inl e"
  by (simp add: loadEntries_def split: sum.split option.split)

lemma loadPlan_returns: "fst (loadPlan P L console) \<noteq> Inl e"
  by (simp add: loadPlan_def split: sum.split option.split)

text \<open>
  Claim C8. When the stored workout entries are malformed, so that parsing them or sorting
  the parsed value raises, \<open>loadEntries\<close> returns the empty list and logs the fault; when
  the stored plan is malformed, so that parsing it raises, \<open>loadPlan\<close> returns \<open>null\<close> and
  logs the fault. Neither loader ever lets a fault through to its caller.
\<close>

theorem malformed_records_fall_back:
  "(localStorage ''workoutEntries'' = Some data \<and> data \<noteq> [] \<and>
      (JSON_parse data = Inl err \<or>
       (\<exists>entries. JSON_parse data = Inr entries \<and> sort_entries entries = Inl err))
     \<longrightarrow> loadEntries JSON_parse sort_entries localStorage console
           = (Inr (JArr []), console @ [(''Failed to load entries:'', err)]))
   \<and> (localStorage ''workoutPlan'' = Some pdata \<and> pdata \<noteq> [] \<and> JSON_parse pdata = Inl perr
     \<longrightarrow> loadPlan JSON_parse localStorage console
           = (Inr JNull, console @ [(''Failed to load plan:'', perr)]))
   \<and> (\<forall>e. fst (loadEntries JSON_parse sort_entries localStorage console) \<noteq> Inl e
          \<and> fst (loadPlan JSON_parse localStorage console) \<noteq> Inl e)"
proof (intro conjI impI allI)
  assume a: "localStorage ''workoutEntries'' = Some data \<and> data \<noteq> [] \<and>
      (JSON_parse data = Inl err \<or>
       (\<exists>entries. JSON_parse data = Inr entries \<and> sort_entries entries = Inl err))"
  then have "loadEntries_try JSON_parse sort_entries localStorage = Inl err"
    unfolding loadEntries_try_def by auto
  then show "loadEntries JSON_parse sort_entries localStorage console
           = (Inr (JArr []), console @ [(''Failed to load entries:'', err)])"
    by (rule loadEntries_caught)
next
  assume a: "localStorage ''workoutPlan'' = Some pdata \<and> pdata \<noteq> [] \<and> JSON_parse pdata = Inl perr"
  then have "loadPlan_try JSON_parse localStorage = Inl perr"
    unfolding loadPlan_try_def by auto
  then show "loadPlan JSON_parse localStorage console
           = (Inr JNull, console @ [(''Failed to load plan:'', perr)])"
    by (rule loadPlan_caught)
next
  fix e show "fst (loadEntries JSON_parse sort_entries localStorage console) \<noteq> Inl e"
    by (rule loadEntries_returns)
next
  fix e show "fst (loadPlan JSON_parse localStorage console) \<noteq> Inl e"
    by (rule loadPlan_returns)
qed

theorem malformed_records_fall_back_witness:
  "loadEntries (\<lambda>s. Inl Thrown) (\<lambda>v. Inr v) (\<lambda>key. Some ''{oops'') []
     = (Inr (JArr []), [(''Failed to load entries:'', Thrown)])
   \<and> loadPlan (\<lambda>s. Inl Thrown) (\<lambda>key. Some ''{oops'') []
     = (Inr JNull, [(''Failed to load plan:'', Thrown)])"
proof -
  have h1: "(\<lambda>key::string. Some ''{oops'') ''workoutEntries'' = Some ''{oops'' \<and> ''{oops'' \<noteq> [] \<and>
      ((\<lambda>s::string. (Inl Thrown :: fault + jsval)) ''{oops'' = Inl Thrown \<or>
       (\<exists>entries. (\<lambda>s::string. (Inl Thrown :: fault + jsval)) ''{oops'' = Inr entries
          \<and> (\<lambda>v. Inr v) entries = Inl Thrown))"
    by simp
  have h2: "(\<lambda>key::string. Some ''{oops'') ''workoutPlan'' = Some ''{oops'' \<and> ''{oops'' \<noteq> []
      \<and> (\<lambda>s::string. (Inl Thrown :: fault + jsval)) ''{oops'' = Inl Thrown"
    by simp
  note t = malformed_records_fall_back [of "\<lambda>key. Some ''{oops''" "''{oops''"
          "\<lambda>s. Inl Thrown" Thrown "\<lambda>v. Inr v" "[]" "''{oops''" Thrown]
  from t h1 have a: "loadEntries (\<lambda>s. Inl Thrown) (\<lambda>v. Inr v) (\<lambda>key. Some ''{oops'') []
     = (Inr (JArr []), [] @ [(''Failed to load entries:'', Thrown)])"
    by blast
  from t h2 have b: "loadPlan (\<lambda>s. Inl Thrown) (\<lambda>key. Some ''{oops'') []
     = (Inr JNull, [] @ [(''Failed to load plan:'', Thrown)])"
    by blast
  from a b show ?thesis by simp
qed

section \<open>Properties of useState and setState\<close>

lemma js_get_js_set: "js_get (js_set hs i x) j = (if j = i then x else js_get hs j)"
  by (auto simp: js_get_def js_set_def nth_append)




lemma useState_others:
  "useState init w = (vs, w') \<Longrightarrow>
   currentRootElement w' = currentRootElement w \<and> currentContainer w' = currentContainer w
   \<and> page w' = page w"
  by (auto simp: useState_def Let_def split: if_splits)

lemma run_others:
  "run p w = (r, w') \<Longrightarrow>
   currentRootElement w' = currentRootElement w \<and> currentContainer w' = currentContainer w
   \<and> page w' = page w"
proof (induction p arbitrary: w)
  case (UseState init k)
  obtain v s w1 where u: "useState init w = ((v, s), w1)"
    by (metis prod.exhaust)
  with UseState.prems have "run (k v s) w1 = (r, w')" by simp
  from UseState.IH[OF rangeI rangeI this] useState_others[OF u] show ?case by simp
qed auto

text \<open>
  Claim C10. The setter that a \<open>useState\<close> call returns is the closure over the hook index
  current at that call. Invoked in any later state \<open>w\<close> (after any number of renders, whatever
  the hook index then is), it writes that slot and no other before it re-renders the
  retained root into the retained container: with an argument that is not callable the
  slot receives the argument; with an updater it receives the result of the updater
  applied to the value the slot holds in \<open>w\<close>. Reading any other slot after the write yields
  what it yielded before.
\<close>

theorem setter_targets_captured_slot:
  "useState initialValue w0 = ((v, setter), w1) \<Longrightarrow> i = hookIndex w0 \<Longrightarrow>
   setter = JSetState i
   \<and> (\<not> is_function newValue \<longrightarrow>
        setState \<Phi> H n i newValue w =
          render \<Phi> H n (currentRootElement w) (currentContainer w)
            (w\<lparr>hookStates := js_set (hookStates w) i newValue, hookIndex := 0\<rparr>))
   \<and> (run (\<Phi> updater (js_get (hookStates w) i)) w = (Some r, wu) \<longrightarrow>
        setState \<Phi> H n i (JFun updater) w =
          render \<Phi> H n (currentRootElement w) (currentContainer w)
            (wu\<lparr>hookStates := js_set (hookStates wu) i r, hookIndex := 0\<rparr>))
   \<and> (\<forall>hs j x. js_get (js_set hs i x) j = (if j = i then x else js_get hs j))"
proof (intro conjI impI allI)
  assume u: "useState initialValue w0 = ((v, setter), w1)" and i: "i = hookIndex w0"
  show "setter = JSetState i" using u i by (auto simp: useState_def Let_def)
next
  assume "\<not> is_function newValue"
  then show "setState \<Phi> H n i newValue w =
          render \<Phi> H n (currentRootElement w) (currentContainer w)
            (w\<lparr>hookStates := js_set (hookStates w) i newValue, hookIndex := 0\<rparr>)"
    by (simp add: setState_def assignSlot_def)
next
  assume r: "run (\<Phi> updater (js_get (hookStates w) i)) w = (Some r, wu)"
  from run_others[OF r] have "currentRootElement wu = currentRootElement w"
    "currentContainer wu = currentContainer w"
    by simp_all
  with r show "setState \<Phi> H n i (JFun updater) w =
          render \<Phi> H n (currentRootElement w) (currentContainer w)
            (wu\<lparr>hookStates := js_set (hookStates wu) i r, hookIndex := 0\<rparr>)"
    by (simp add: setState_def assignSlot_def)
next
  fix hs j x show "js_get (js_set hs i x) j = (if j = i then x else js_get hs j)"
    by (rule js_get_js_set)
qed


theorem setter_targets_captured_slot_witness:
  "useState (JNum 0) initial_world
     = ((JNum 0, JSetState 0), initial_world\<lparr>hookStates := [JNum 0], hookIndex := 1\<rparr>)
   \<and> setState counter_app no_fields 1 0 (JNum 7)
        (initial_world\<lparr>hookStates := [JNum 0], hookIndex := 1\<rparr>)
     = render counter_app no_fields 1 JNull None
        (initial_world\<lparr>hookStates := [JNum 7], hookIndex := 0\<rparr>)
   \<and> setState counter_app no_fields 1 0 (JFun 2)
        (initial_world\<lparr>hookStates := [JNum 0], hookIndex := 1\<rparr>)
     = render counter_app no_fields 1 JNull None
        (initial_world\<lparr>hookStates := [JNum 1], hookIndex := 0\<rparr>)"
proof -
  let ?w = "initial_world\<lparr>hookStates := [JNum 0], hookIndex := 1\<rparr>"
  have u: "useState (JNum 0) initial_world = ((JNum 0, JSetState 0), ?w)"
    by (simp add: useState_def initial_world_def js_get_def js_set_def)
  have i: "(0::nat) = hookIndex initial_world"
    by (simp add: initial_world_def)
  have r: "run (counter_app 2 (js_get (hookStates ?w) 0)) ?w = (Some (JNum 1), ?w)"
    by (simp add: counter_app_def js_get_def)
  have f: "\<not> is_function (JNum 7)" by simp
  have s7: "?w\<lparr>hookStates := js_set (hookStates ?w) 0 (JNum 7), hookIndex := 0\<rparr>
      = initial_world\<lparr>hookStates := [JNum 7], hookIndex := 0\<rparr>"
    by (simp add: js_set_def)
  have s1: "?w\<lparr>hookStates := js_set (hookStates ?w) 0 (JNum 1), hookIndex := 0\<rparr>
      = initial_world\<lparr>hookStates := [JNum 1], hookIndex := 0\<rparr>"
    by (simp add: js_set_def)
  have c: "currentRootElement ?w = JNull" "currentContainer ?w = None"
    by (simp_all add: initial_world_def)
  note t = setter_targets_captured_slot [OF u i, of "JNum 7" counter_app no_fields 1 ?w 2
      "JNum 1" ?w]
  from t f have a: "setState counter_app no_fields 1 0 (JNum 7) ?w
     = render counter_app no_fields 1 (currentRootElement ?w) (currentContainer ?w)
         (?w\<lparr>hookStates := js_set (hookStates ?w) 0 (JNum 7), hookIndex := 0\<rparr>)"
    by blast
  from t r have b: "setState counter_app no_fields 1 0 (JFun 2) ?w
     = render counter_app no_fields 1 (currentRootElement ?w) (currentContainer ?w)
         (?w\<lparr>hookStates := js_set (hookStates ?w) 0 (JNum 1), hookIndex := 0\<rparr>)"
    by blast
  show ?thesis
    unfolding a b s7 s1 c using u by simp
qed


section \<open>Induction over a mounting pass\<close>

lemma removeChildren_empty: "removeChildren ks = []"
  by (induction ks) simp_all

lemma appendElement_unmodelled:
  "(\<And>f. type \<noteq> JFun f) \<Longrightarrow> (\<And>t. type \<noteq> JStr t) \<Longrightarrow>
   appendElement \<Phi> H n (JElem type props children) container w = (Raised Unmodelled, container, w)"
  by (cases type) (auto simp: appendElement_elem)

lemma appendElement_nonnode:
  "\<lbrakk>\<And>s. node \<noteq> JStr s; \<And>k. node \<noteq> JNum k; \<And>cs. node \<noteq> JArr cs;
    \<And>t p cs. node \<noteq> JElem t p cs\<rbrakk> \<Longrightarrow>
   \<exists>e. \<forall>n container w. appendElement \<Phi> H n node container w = (Raised e, container, w)"
  by (cases node) auto

lemma mount_induct [case_names Text Number Array Diverge Component Host Unmodelled Nonnode Nil Cons]:
  assumes Itext: "\<And>n s c w. P n (JStr s) c w"
    and Inumber: "\<And>n k c w. P n (JNum k) c w"
    and Iarray: "\<And>n cs c w. Q n cs c w \<Longrightarrow> P n (JArr cs) c w"
    and Idiverge: "\<And>f props children c w. P 0 (JElem (JFun f) props children) c w"
    and Icomponent: "\<And>m f props children c w.
        (\<And>rendered w1. run (\<Phi> f (assign_children props children)) w = (Some rendered, w1)
           \<Longrightarrow> P m rendered c w1)
        \<Longrightarrow> P (Suc m) (JElem (JFun f) props children) c w"
    and Ihost: "\<And>n tag props children c w.
        (\<And>ps el. Object_entries props = Some ps \<Longrightarrow> applyProps H ps (createDom tag) = Some el
           \<Longrightarrow> Q n children (childNodes el) w)
        \<Longrightarrow> P n (JElem (JStr tag) props children) c w"
    and Iunmodelled: "\<And>n type props children c w.
        (\<And>f. type \<noteq> JFun f) \<Longrightarrow> (\<And>t. type \<noteq> JStr t)
        \<Longrightarrow> P n (JElem type props children) c w"
    and Inonnode: "\<And>n node c w.
        \<lbrakk>\<And>s. node \<noteq> JStr s; \<And>k. node \<noteq> JNum k; \<And>cs. node \<noteq> JArr cs;
         \<And>t p cs. node \<noteq> JElem t p cs\<rbrakk> \<Longrightarrow> P n node c w"
    and Inil: "\<And>n c w. Q n [] c w"
    and Icons: "\<And>n child rest c w.
        P n child c w \<Longrightarrow>
        (\<And>c1 w1. appendElement \<Phi> H n child c w = (Done, c1, w1) \<Longrightarrow> Q n rest c1 w1)
        \<Longrightarrow> Q n (child # rest) c w"
  shows "P n node c w" and "Q n nodes c w"
proof -
  have main: "(\<Phi>' = \<Phi> \<and> H' = H \<longrightarrow> P n node c w)" "(\<Phi>' = \<Phi> \<and> H' = H \<longrightarrow> Q n nodes c w)"
    for \<Phi>' H'
  proof (induction \<Phi>' H' n node c w and \<Phi>' H' n nodes c w rule: appendElement_appendAll.induct)
    case (4 \<Phi>' H' n type props children container w)
    show ?case
    proof (intro impI)
      assume e: "\<Phi>' = \<Phi> \<and> H' = H"
      show "P n (JElem type props children) container w"
      proof (cases type)
        case (JFun f)
        show ?thesis
        proof (cases n)
          case 0
          with JFun show ?thesis by (simp add: Idiverge)
        next
          case (Suc m)
          have "P (Suc m) (JElem (JFun f) props children) container w"
          proof (rule Icomponent)
            fix rendered w1
            assume r: "run (\<Phi> f (assign_children props children)) w = (Some rendered, w1)"
            from e have r': "(Some rendered, w1) = run (\<Phi>' f (assign_children props children)) w"
              using r by simp
            from 4(2)[OF JFun Suc r' refl] e
            show "P m rendered container w1" by simp
          qed
          with JFun Suc show ?thesis by simp
        qed
      next
        case (JStr tag)
        have "P n (JElem (JStr tag) props children) container w"
        proof (rule Ihost)
          fix ps el
          assume "Object_entries props = Some ps" "applyProps H ps (createDom tag) = Some el"
          with 4(1)[OF JStr, of ps el] e show "Q n children (childNodes el) w" by simp
        qed
        with JStr show ?thesis by simp
      qed (auto intro: Iunmodelled)
    qed
  next
    case (12 \<Phi>' H' n child rest container w)
    show ?case
    proof (intro impI)
      assume e: "\<Phi>' = \<Phi> \<and> H' = H"
      show "Q n (child # rest) container w"
      proof (rule Icons)
        from 12(1) e show "P n child container w" by simp
      next
        fix c1 w1
        assume "appendElement \<Phi> H n child container w = (Done, c1, w1)"
        with e have "(Done, c1, w1) = appendElement \<Phi>' H' n child container w" by simp
        from 12(2)[OF this refl refl] e show "Q n rest c1 w1" by simp
      qed
    qed
  qed (auto intro: Itext Inumber Iarray Inonnode Inil)
  from main[of \<Phi> H] show "P n node c w" and "Q n nodes c w" by simp_all
qed


section \<open>What a pass does to the hook slots\<close>

lemma pass_keeps:
  "pass w w' \<Longrightarrow> j < hookIndex w \<or> js_get (hookStates w) j \<noteq> JUndefined \<Longrightarrow>
   js_get (hookStates w') j = js_get (hookStates w) j"
  unfolding pass_def by blast

lemma pass_consumed:
  "pass w w' \<Longrightarrow> hookIndex w \<le> j \<Longrightarrow> j < hookIndex w' \<Longrightarrow> j < length (hookStates w')"
  unfolding pass_def by blast

lemma pass_index: "pass w w' \<Longrightarrow> hookIndex w \<le> hookIndex w'"
  unfolding pass_def by blast

lemma pass_length: "pass w w' \<Longrightarrow> length (hookStates w) \<le> length (hookStates w')"
  unfolding pass_def by blast

lemma pass_others: "pass w w' \<Longrightarrow> others_kept w w'"
  unfolding pass_def by blast

lemma pass_refl: "pass w w"
  by (simp add: pass_def others_kept_def)

lemma pass_trans:
  assumes "pass w w1" and "pass w1 w2"
  shows "pass w w2"
  unfolding pass_def
proof (intro conjI allI impI)
  show "others_kept w w2"
    using pass_others[OF assms(1)] pass_others[OF assms(2)] by (simp add: others_kept_def)
  show "hookIndex w \<le> hookIndex w2"
    using pass_index[OF assms(1)] pass_index[OF assms(2)] by simp
  show "length (hookStates w) \<le> length (hookStates w2)"
    using pass_length[OF assms(1)] pass_length[OF assms(2)] by simp
next
  fix j assume j: "j < hookIndex w \<or> js_get (hookStates w) j \<noteq> JUndefined"
  from pass_keeps[OF assms(1) j]
  have a: "js_get (hookStates w1) j = js_get (hookStates w) j" .
  from j a pass_index[OF assms(1)]
  have "j < hookIndex w1 \<or> js_get (hookStates w1) j \<noteq> JUndefined" by auto
  from pass_keeps[OF assms(2) this] a
  show "js_get (hookStates w2) j = js_get (hookStates w) j" by simp
next
  fix j assume j: "hookIndex w \<le> j \<and> j < hookIndex w2"
  show "j < length (hookStates w2)"
  proof (cases "j < hookIndex w1")
    case True
    with j pass_consumed[OF assms(1), of j] have "j < length (hookStates w1)" by simp
    with pass_length[OF assms(2)] show ?thesis by simp
  next
    case False
    with j pass_consumed[OF assms(2), of j] show ?thesis by simp
  qed
qed

lemma length_js_set: "length (js_set hs i v) = max (length hs) (Suc i)"
  by (auto simp: js_set_def)

lemma js_get_defined_less: "js_get hs i \<noteq> JUndefined \<Longrightarrow> i < length hs"
  by (auto simp: js_get_def split: if_splits)

lemma useState_pass: "useState init w = (vs, w') \<Longrightarrow> pass w w' \<and> hookIndex w' = Suc (hookIndex w)"
  by (auto simp: useState_def Let_def pass_def others_kept_def js_get_js_set length_js_set
        dest: js_get_defined_less split: if_splits)

lemma run_pass: "run p w = (r, w') \<Longrightarrow> pass w w'"
proof (induction p arbitrary: w)
  case (UseState init k)
  obtain v s w1 where u: "useState init w = ((v, s), w1)"
    by (metis prod.exhaust)
  with UseState.prems have "run (k v s) w1 = (r, w')" by simp
  from UseState.IH[OF rangeI rangeI this] useState_pass[OF u] show ?case
    by (auto intro: pass_trans)
qed (auto simp: pass_refl)

lemma appendElement_pass:
  "appendElement \<Phi> H n node c w = (st, ks, w') \<Longrightarrow> pass w w'"
  "appendAll \<Phi> H n nodes c w = (st, ks, w') \<Longrightarrow> pass w w'"
proof (induction n node c w and n nodes c w arbitrary: st ks w' and st ks w'
        rule: mount_induct[where \<Phi>=\<Phi> and H=H])
  case (Component m f props children c w)
  obtain r w1 where r: "run (\<Phi> f (assign_children props children)) w = (r, w1)"
    by (metis prod.exhaust)
  show ?case
  proof (cases r)
    case None
    with Component.prems r run_pass[OF r] show ?thesis
      by (auto simp: appendElement_component)
  next
    case (Some rendered)
    with Component.prems r have "appendElement \<Phi> H m rendered c w1 = (st, ks, w')"
      by (simp add: appendElement_component)
    from Component.IH[OF r[unfolded Some] this] run_pass[OF r] show ?thesis
      by (rule pass_trans[rotated])
  qed
next
  case (Host n tag props children c w)
  show ?case
  proof (cases "Object_entries props")
    case None
    with Host.prems show ?thesis by (simp add: appendElement_host pass_refl)
  next
    case (Some ps)
    note ps = this
    show ?thesis
    proof (cases "applyProps H ps (createDom tag)")
      case None
      with Host.prems ps show ?thesis by (simp add: appendElement_host pass_refl)
    next
      case (Some el)
      obtain st1 ks1 w1 where a: "appendAll \<Phi> H n children (childNodes el) w = (st1, ks1, w1)"
        by (metis prod.exhaust)
      from Host.IH[OF ps Some a] have "pass w w1" .
      with Host.prems ps Some a show ?thesis
        by (cases st1) (auto simp: appendElement_host)
    qed
  qed
next
  case (Cons n child rest c w)
  obtain st1 k1 w1 where a: "appendElement \<Phi> H n child c w = (st1, k1, w1)"
    by (metis prod.exhaust)
  from Cons.IH(1)[OF a] have o1: "pass w w1" .
  show ?case
  proof (cases st1)
    case Done
    with Cons.prems a have "appendAll \<Phi> H n rest k1 w1 = (st, ks, w')" by simp
    from Cons.IH(2)[OF a[unfolded Done] this] o1
    show ?thesis by (rule pass_trans[rotated])
  next
    case (Raised e)
    with Cons.prems a o1 show ?thesis by auto
  qed
next
  case (Unmodelled n type props children c w)
  then show ?case by (simp add: appendElement_unmodelled pass_refl)
next
  case (Nonnode n node c w)
  from appendElement_nonnode[OF Nonnode(1-4), of \<Phi> H] Nonnode.prems
  show ?case by (auto simp: pass_refl)
qed (auto simp: pass_refl appendElement_component)


section \<open>Replaying a pass\<close>

lemma replays_first:
  "replays u w w' \<Longrightarrow> pass w w1 \<Longrightarrow> pass w1 w' \<Longrightarrow> replays u w w1"
  unfolding replays_def
  using pass_keeps[of w1 w'] pass_index[of w1 w'] by auto

lemma replays_second:
  "replays u w w' \<Longrightarrow> pass w w1 \<Longrightarrow> replays (u\<lparr>hookIndex := hookIndex w1\<rparr>) w1 w'"
  unfolding replays_def
  using pass_index[of w w1] by auto

lemma replays_same: "replays u w w \<Longrightarrow> u\<lparr>hookIndex := hookIndex w\<rparr> = u"
  by (simp add: replays_def)

lemma list_update_same: "i < length xs \<Longrightarrow> xs ! i = v \<Longrightarrow> xs[i := v] = xs"
  by (metis list_update_id)

lemma useState_replay:
  assumes u: "useState init w = ((v, s), w1)" and r: "replays u w w1"
  shows "useState init u = ((v, s), u\<lparr>hookIndex := hookIndex w1\<rparr>)"
proof -
  let ?i = "hookIndex w"
  from useState_pass[OF u] have i1: "hookIndex w1 = Suc ?i" by simp
  from r i1 have iu: "hookIndex u = ?i" and len: "?i < length (hookStates u)"
    and same: "js_get (hookStates u) ?i = js_get (hookStates w1) ?i"
    by (auto simp: replays_def)
  from u have v: "v = js_get (hookStates w1) ?i" and s: "s = JSetState ?i"
    by (auto simp: useState_def Let_def split: if_splits)
  show ?thesis
  proof (cases "v = JUndefined")
    case False
    with v same iu i1 s show ?thesis
      by (simp add: useState_def Let_def)
  next
    case True
    from u True v have init: "init = JUndefined"
      by (auto simp: useState_def Let_def js_get_js_set split: if_splits)
    from True v same len have "hookStates u ! ?i = JUndefined" by (simp add: js_get_def)
    with len have "js_set (hookStates u) ?i JUndefined = hookStates u"
      by (simp add: js_set_def list_update_same)
    with True v same iu i1 s init show ?thesis
      by (simp add: useState_def Let_def)
  qed
qed

lemma run_replay:
  "run p w = (r, w') \<Longrightarrow> replays u w w' \<Longrightarrow> run p u = (r, u\<lparr>hookIndex := hookIndex w'\<rparr>)"
proof (induction p arbitrary: w u)
  case (UseState init k)
  obtain v s w1 where us: "useState init w = ((v, s), w1)"
    by (metis prod.exhaust)
  with UseState.prems have rest: "run (k v s) w1 = (r, w')" by simp
  from useState_pass[OF us] have p1: "pass w w1" by simp
  from run_pass[OF rest] have p2: "pass w1 w'" .
  from useState_replay[OF us replays_first[OF UseState.prems(2) p1 p2]]
  have a: "useState init u = ((v, s), u\<lparr>hookIndex := hookIndex w1\<rparr>)" .
  from UseState.IH[OF rangeI rangeI rest replays_second[OF UseState.prems(2) p1]]
  have "run (k v s) (u\<lparr>hookIndex := hookIndex w1\<rparr>) = (r, u\<lparr>hookIndex := hookIndex w'\<rparr>)"
    by simp
  with a show ?case by simp
qed (auto simp: replays_same)

lemma appendElement_replay:
  "appendElement \<Phi> H n node c w = (st, ks, w') \<Longrightarrow> replays u w w' \<Longrightarrow>
   appendElement \<Phi> H n node c u = (st, ks, u\<lparr>hookIndex := hookIndex w'\<rparr>)"
  "appendAll \<Phi> H n nodes c w = (st, ks, w') \<Longrightarrow> replays u w w' \<Longrightarrow>
   appendAll \<Phi> H n nodes c u = (st, ks, u\<lparr>hookIndex := hookIndex w'\<rparr>)"
proof (induction n node c w and n nodes c w arbitrary: st ks w' u and st ks w' u
        rule: mount_induct[where \<Phi>=\<Phi> and H=H])
  case (Component m f props children c w)
  obtain r w1 where r: "run (\<Phi> f (assign_children props children)) w = (r, w1)"
    by (metis prod.exhaust)
  show ?case
  proof (cases r)
    case None
    with Component.prems(1) r have e: "st = Raised Thrown" "ks = c" "w' = w1"
      by (simp_all add: appendElement_component)
    from run_replay[OF r] Component.prems(2) e
    have "run (\<Phi> f (assign_children props children)) u = (r, u\<lparr>hookIndex := hookIndex w'\<rparr>)"
      by simp
    with None e show ?thesis by (simp add: appendElement_component)
  next
    case (Some rendered)
    with Component.prems(1) r have rest: "appendElement \<Phi> H m rendered c w1 = (st, ks, w')"
      by (simp add: appendElement_component)
    from run_pass[OF r] have p1: "pass w w1" .
    from appendElement_pass(1)[OF rest] have p2: "pass w1 w'" .
    from run_replay[OF r replays_first[OF Component.prems(2) p1 p2]]
    have a: "run (\<Phi> f (assign_children props children)) u = (r, u\<lparr>hookIndex := hookIndex w1\<rparr>)" .
    from Component.IH[OF r[unfolded Some] rest replays_second[OF Component.prems(2) p1]]
    have "appendElement \<Phi> H m rendered c (u\<lparr>hookIndex := hookIndex w1\<rparr>)
            = (st, ks, u\<lparr>hookIndex := hookIndex w'\<rparr>)" by simp
    with a Some show ?thesis by (simp add: appendElement_component)
  qed
next
  case (Host n tag props children c w)
  show ?case
  proof (cases "Object_entries props")
    case None
    with Host.prems show ?thesis by (auto simp: appendElement_host replays_same)
  next
    case (Some ps)
    note ps = this
    show ?thesis
    proof (cases "applyProps H ps (createDom tag)")
      case None
      with Host.prems ps show ?thesis by (auto simp: appendElement_host replays_same)
    next
      case (Some el)
      obtain st1 ks1 w1 where a: "appendAll \<Phi> H n children (childNodes el) w = (st1, ks1, w1)"
        by (metis prod.exhaust)
      with Host.prems(1) ps Some have w1: "w1 = w'"
        by (cases st1) (auto simp: appendElement_host)
      from Host.IH[OF ps Some a] Host.prems(2) w1
      have "appendAll \<Phi> H n children (childNodes el) u = (st1, ks1, u\<lparr>hookIndex := hookIndex w'\<rparr>)"
        by simp
      with Host.prems(1) ps Some a show ?thesis
        by (cases st1) (auto simp: appendElement_host)
    qed
  qed
next
  case (Cons n child rest c w)
  obtain st1 k1 w1 where a: "appendElement \<Phi> H n child c w = (st1, k1, w1)"
    by (metis prod.exhaust)
  from appendElement_pass(1)[OF a] have p1: "pass w w1" .
  show ?case
  proof (cases st1)
    case Done
    with Cons.prems(1) a have rest: "appendAll \<Phi> H n rest k1 w1 = (st, ks, w')" by simp
    from appendElement_pass(2)[OF rest] have p2: "pass w1 w'" .
    from Cons.IH(1)[OF a replays_first[OF Cons.prems(2) p1 p2]]
    have b: "appendElement \<Phi> H n child c u = (st1, k1, u\<lparr>hookIndex := hookIndex w1\<rparr>)" .
    from Cons.IH(2)[OF a[unfolded Done] rest replays_second[OF Cons.prems(2) p1]]
    have "appendAll \<Phi> H n rest k1 (u\<lparr>hookIndex := hookIndex w1\<rparr>)
            = (st, ks, u\<lparr>hookIndex := hookIndex w'\<rparr>)" by simp
    with b Done show ?thesis by simp
  next
    case (Raised e)
    with Cons.prems(1) a have e: "st = Raised e" "ks = k1" "w' = w1" by simp_all
    from Cons.IH(1)[OF a] Cons.prems(2) e
    have "appendElement \<Phi> H n child c u = (st1, k1, u\<lparr>hookIndex := hookIndex w'\<rparr>)" by simp
    with Raised e show ?thesis by simp
  qed
next
  case (Unmodelled n type props children c w)
  then show ?case by (auto simp: appendElement_unmodelled replays_same)
next
  case (Nonnode n node c w)
  from appendElement_nonnode[OF Nonnode(1-4), of \<Phi> H] Nonnode.prems
  show ?case by (auto simp: replays_same)
qed (auto simp: replays_same appendElement_component)


text \<open>
  Claim C6. Components are functions of their props and of what their \<open>useState\<close> calls
  return, as the type of caller code has it. Calling \<open>render\<close> a second time with the same
  node and container, in the state the first call left and with nothing in between, has the
  outcome of the first call and leaves the state the first call left: in particular the
  container holds the same host tree, with the same structure and the same attribute
  values.
\<close>

theorem render_twice_same:
  "render \<Phi> H n node container (snd (render \<Phi> H n node container w))
     = render \<Phi> H n node container w"
proof (cases container)
  case None
  then show ?thesis by (simp add: render_def)
next
  case (Some c)
  let ?w2 = "w\<lparr>hookIndex := 0, currentRootElement := node, currentContainer := Some c,
               page := (page w)(c := [])\<rparr>"
  obtain st kids w3 where a: "appendElement \<Phi> H n node [] ?w2 = (st, kids, w3)"
    by (metis prod.exhaust)
  from appendElement_pass(1)[OF a] have p: "pass ?w2 w3" .
  have first: "render \<Phi> H n node container w = (st, w3\<lparr>page := (page w3)(c := kids)\<rparr>)"
    using Some a by (simp add: render_def removeChildren_empty)
  from pass_others[OF p] have o: "currentRootElement w3 = node" "currentContainer w3 = Some c"
    "page w3 = (page w)(c := [])"
    by (simp_all add: others_kept_def)
  have start: "(w3\<lparr>page := (page w3)(c := kids)\<rparr>)\<lparr>hookIndex := 0, currentRootElement := node,
         currentContainer := Some c, page := ((page w3)(c := kids))(c := [])\<rparr>
       = w3\<lparr>hookIndex := 0\<rparr>"
    using o by simp
  have "replays (w3\<lparr>hookIndex := 0\<rparr>) ?w2 w3"
    using pass_consumed[OF p] by (simp add: replays_def)
  from appendElement_replay(1)[OF a this]
  have "appendElement \<Phi> H n node [] (w3\<lparr>hookIndex := 0\<rparr>) = (st, kids, w3)" by simp
  then have "render \<Phi> H n node container (w3\<lparr>page := (page w3)(c := kids)\<rparr>)
      = (st, w3\<lparr>page := (page w3)(c := kids)\<rparr>)"
    using Some start by (simp add: render_def removeChildren_empty)
  with first show ?thesis by simp
qed

section \<open>Properties of render\<close>

lemma appended_simps [simp]: "appended k (st, new, w') = (st, k @ new, w')"
  by (simp add: appended_def)

lemma appended_appended: "appended k (appended k' r) = appended (k @ k') r"
  by (cases r) simp

lemma appendElement_appends_aux:
  fixes c0 :: "host list"
  shows "\<forall>k. appendElement \<Phi> H n node k w = appended k (appendElement \<Phi> H n node [] w)"
    and "\<forall>k. appendAll \<Phi> H n nodes k w = appended k (appendAll \<Phi> H n nodes [] w)"
proof (induction n node c0 w and n nodes c0 w rule: mount_induct[where \<Phi>=\<Phi> and H=H])
  case (Component m f props children c w)
  show ?case
  proof
    fix k
    obtain r w1 where r: "run (\<Phi> f (assign_children props children)) w = (r, w1)"
      by (metis prod.exhaust)
    show "appendElement \<Phi> H (Suc m) (JElem (JFun f) props children) k w
        = appended k (appendElement \<Phi> H (Suc m) (JElem (JFun f) props children) [] w)"
    proof (cases r)
      case None
      with r show ?thesis by (simp add: appendElement_component)
    next
      case (Some rendered)
      from Component.IH[OF r[unfolded Some]]
      have "appendElement \<Phi> H m rendered k w1 = appended k (appendElement \<Phi> H m rendered [] w1)"
        by blast
      with r Some show ?thesis by (simp add: appendElement_component)
    qed
  qed
next
  case (Host n tag props children c w)
  show ?case
  proof
    fix k
    show "appendElement \<Phi> H n (JElem (JStr tag) props children) k w
        = appended k (appendElement \<Phi> H n (JElem (JStr tag) props children) [] w)"
      by (simp add: appendElement_host split: option.split prod.split status.split)
  qed
next
  case (Cons n child rest c w)
  show ?case
  proof
    fix k
    obtain st1 new1 w1 where a: "appendElement \<Phi> H n child [] w = (st1, new1, w1)"
      by (metis prod.exhaust)
    from Cons.IH(1) a have b: "appendElement \<Phi> H n child k' w = (st1, k' @ new1, w1)" for k'
      by simp
    show "appendAll \<Phi> H n (child # rest) k w = appended k (appendAll \<Phi> H n (child # rest) [] w)"
    proof (cases st1)
      case Done
      from Cons.IH(2)[OF b[of c, unfolded Done]]
      have ih: "appendAll \<Phi> H n rest k' w1 = appended k' (appendAll \<Phi> H n rest [] w1)" for k'
        by blast
      have "appendAll \<Phi> H n (child # rest) k w = appendAll \<Phi> H n rest (k @ new1) w1"
        using b[of k] Done by simp
      also have "\<dots> = appended (k @ new1) (appendAll \<Phi> H n rest [] w1)"
        by (rule ih)
      also have "\<dots> = appended k (appendAll \<Phi> H n rest new1 w1)"
        using ih[of new1] by (simp add: appended_appended)
      also have "\<dots> = appended k (appendAll \<Phi> H n (child # rest) [] w)"
        using a Done by simp
      finally show ?thesis .
    next
      case (Raised e)
      with a b[of k] show ?thesis by simp
    qed
  qed
next
  case (Unmodelled n type props children c w)
  then show ?case by (simp add: appendElement_unmodelled)
next
  case (Nonnode n node c w)
  from appendElement_nonnode[OF Nonnode(1-4), of \<Phi> H]
  show ?case by auto
next
  case (Array n cs c w)
  show ?case
  proof
    fix k
    from Array.IH have "appendAll \<Phi> H n cs k w = appended k (appendAll \<Phi> H n cs [] w)"
      by blast
    then show "appendElement \<Phi> H n (JArr cs) k w = appended k (appendElement \<Phi> H n (JArr cs) [] w)"
      by simp
  qed
next
  case (Text n s c w)
  show ?case by simp
next
  case (Number n k c w)
  show ?case by simp
next
  case (Diverge f props children c w)
  show ?case by (simp add: appendElement_component)
next
  case (Nil n c w)
  show ?case by simp
qed

lemma appendElement_appends:
  "appendElement \<Phi> H n node k w = appended k (appendElement \<Phi> H n node [] w)"
  using appendElement_appends_aux(1) by blast

lemma render_unfold:
  "render \<Phi> H n element (Some c) w =
     (case appendElement \<Phi> H n element []
             (w\<lparr>hookIndex := 0, currentRootElement := element, currentContainer := Some c,
                page := (page w)(c := [])\<rparr>) of
        (st, kids, w') \<Rightarrow> (st, w'\<lparr>page := (page w')(c := kids)\<rparr>))"
  by (simp add: render_def removeChildren_empty)


text \<open>
  Claim C7. Every call of \<open>render\<close> on a container mounts the element into the emptied
  container and leaves the container with exactly the nodes that mounting created, also
  when mounting raised. The outcome does not depend on what the container held before the
  call. Mounting itself only appends: into a container that holds nodes it does what it does
  into an empty one, the existing nodes staying in front, untouched.
\<close>

theorem render_rebuilds_container:
  "render \<Phi> H n element (Some c) w =
     (case appendElement \<Phi> H n element []
             (w\<lparr>hookIndex := 0, currentRootElement := element, currentContainer := Some c,
                page := (page w)(c := [])\<rparr>) of
        (st, kids, w') \<Rightarrow> (st, w'\<lparr>page := (page w')(c := kids)\<rparr>))
   \<and> render \<Phi> H n element (Some c) (w\<lparr>page := (page w)(c := old)\<rparr>)
       = render \<Phi> H n element (Some c) w
   \<and> appendElement \<Phi> H n element existing w
       = (case appendElement \<Phi> H n element [] w of
            (st, new, w') \<Rightarrow> (st, existing @ new, w'))"
proof (intro conjI)
  show "render \<Phi> H n element (Some c) w =
     (case appendElement \<Phi> H n element []
             (w\<lparr>hookIndex := 0, currentRootElement := element, currentContainer := Some c,
                page := (page w)(c := [])\<rparr>) of
        (st, kids, w') \<Rightarrow> (st, w'\<lparr>page := (page w')(c := kids)\<rparr>))"
    by (rule render_unfold)
  show "render \<Phi> H n element (Some c) (w\<lparr>page := (page w)(c := old)\<rparr>)
       = render \<Phi> H n element (Some c) w"
    by (simp add: render_unfold)
  show "appendElement \<Phi> H n element existing w
       = (case appendElement \<Phi> H n element [] w of
            (st, new, w') \<Rightarrow> (st, existing @ new, w'))"
    using appendElement_appends[of \<Phi> H n element existing w] by (simp add: appended_def)
qed











section \<open>The counter\<close>



end
